theory Spec2Isabelle
  imports Complex_Main
begin

section \<open>A model of download\_pdfs.py\<close>

text \<open>
  The program downloads a list of URLs into a directory.  Its own code is the five
  functions \<open>create_session\<close>, \<open>filename_from_url\<close>, \<open>resolve_collision\<close>,
  \<open>download_one\<close> and \<open>main\<close>; everything else is the Python standard library,
  \<open>requests\<close> and \<open>urllib3\<close>.  The functions of the program are translated
  line by line.  The library calls they make are modelled by the definitions of the
  subsections "library", each with the Python it stands for.  Strings are byte strings
  (ASCII text), integers are unbounded, an exception is a value of type \<open>exn\<close>, and a
  function that may raise returns \<open>exn + 'a\<close> with \<open>Inl\<close> the raised exception.
\<close>

subsection \<open>Exceptions\<close>

datatype exn =
    ValueError string
  | HTTPError string
  | OSError string
  | RequestException string

text \<open>\<open>str(e)\<close>: the message of the exception.\<close>

fun str_exn :: "exn \<Rightarrow> string" where
  "str_exn (ValueError m) = m"
| "str_exn (HTTPError m) = m"
| "str_exn (OSError m) = m"
| "str_exn (RequestException m) = m"

subsection \<open>Library: strings\<close>

text \<open>\<open>str(n)\<close> for a natural number, as an f-string renders it.\<close>

definition digit_char :: "nat \<Rightarrow> char" where
  "digit_char d = ''0123456789'' ! d"

fun dec :: "nat \<Rightarrow> string" where
  "dec n = (if n < 10 then [digit_char n] else dec (n div 10) @ [digit_char (n mod 10)])"

declare dec.simps [simp del]

text \<open>The value of a decimal numeral, used to show that \<open>dec\<close> is injective.\<close>

definition undigit :: "char \<Rightarrow> nat" where
  "undigit c = of_char c - 48"

definition undec :: "string \<Rightarrow> nat" where
  "undec s = foldl (\<lambda>a c. 10 * a + undigit c) 0 s"

text \<open>\<open>s.split(sep)\<close> for a separator of one character.\<close>

fun split_on :: "char \<Rightarrow> string \<Rightarrow> string list" where
  "split_on sep [] = [[]]"
| "split_on sep (c # cs) =
     (if c = sep then [] # split_on sep cs
      else (case split_on sep cs of
              [] \<Rightarrow> [[c]]
            | w # ws \<Rightarrow> (c # w) # ws))"

text \<open>\<open>s.replace(a, b)\<close> for single characters.\<close>

definition replace :: "char \<Rightarrow> char \<Rightarrow> string \<Rightarrow> string" where
  "replace a b s = map (\<lambda>c. if c = a then b else c) s"

text \<open>\<open>sep.join(xs)\<close>.\<close>

fun join :: "string \<Rightarrow> string list \<Rightarrow> string" where
  "join sep [] = []"
| "join sep [x] = x"
| "join sep (x # y # ys) = x @ sep @ join sep (y # ys)"

text \<open>\<open>s.rfind(c)\<close>: the index of the last occurrence, \<open>None\<close> for Python's -1.\<close>

definition rfind :: "char \<Rightarrow> string \<Rightarrow> nat option" where
  "rfind c s =
     (let ix = filter (\<lambda>i. s ! i = c) [0..<length s]
      in if ix = [] then None else Some (last ix))"

subsection \<open>Library: pathlib on POSIX\<close>

text \<open>
  A \<open>PurePosixPath\<close> is its root (\<open>''''\<close>, \<open>''/''\<close> or \<open>''//''\<close>) and its
  components.  The constructor drops empty components and single dots and keeps
  double dots; exactly two leading slashes are kept as the root \<open>''//''\<close>.
\<close>

datatype path = Path (anchor: string) (parts: "string list")

definition parse_path :: "string \<Rightarrow> path" where
  "parse_path s =
     Path (let n = length (takeWhile (\<lambda>c. c = CHR ''/'') s)
           in if n = 0 then [] else if n = 2 then ''//'' else ''/'')
          (filter (\<lambda>c. c \<noteq> [] \<and> c \<noteq> ''.'') (split_on CHR ''/'' s))"

text \<open>\<open>p / s\<close> for a string \<open>s\<close>: an absolute \<open>s\<close> replaces \<open>p\<close>.\<close>

definition joinpath :: "path \<Rightarrow> string \<Rightarrow> path" where
  "joinpath p s =
     (case parse_path s of
        Path r ps \<Rightarrow> if r \<noteq> [] then Path r ps else Path (anchor p) (parts p @ ps))"

text \<open>\<open>str(p)\<close>.\<close>

definition str_path :: "path \<Rightarrow> string" where
  "str_path p =
     (if anchor p = [] \<and> parts p = [] then ''.'' else anchor p @ join ''/'' (parts p))"

text \<open>\<open>p.name\<close>: the last component, empty for \<open>Path('.')\<close> and \<open>Path('/')\<close>.\<close>

definition name :: "path \<Rightarrow> string" where
  "name p = (if parts p = [] then [] else last (parts p))"

text \<open>
  \<open>p.suffix\<close> and \<open>p.stem\<close> (Python up to 3.13):
  \<^verbatim>\<open>
  i = name.rfind('.')
  if 0 < i < len(name) - 1: return name[i:]    # stem: name[:i]
  else: return ''                              # stem: name
  \<close>
\<close>

definition suffix :: "path \<Rightarrow> string" where
  "suffix p =
     (let n = name p in
      case rfind CHR ''.'' n of
        None \<Rightarrow> []
      | Some i \<Rightarrow> if 0 < i \<and> i + 1 < length n then drop i n else [])"

definition stem :: "path \<Rightarrow> string" where
  "stem p =
     (let n = name p in
      case rfind CHR ''.'' n of
        None \<Rightarrow> n
      | Some i \<Rightarrow> if 0 < i \<and> i + 1 < length n then take i n else n)"

text \<open>
  \<open>p.with_name(n)\<close> raises \<open>ValueError\<close> when \<open>p\<close> has an empty name, and
  when \<open>n\<close> is empty, is a single dot or contains a slash.  The messages are
  \<^verbatim>\<open>"%r has an empty name" % (self,)\<close> and \<^verbatim>\<open>"Invalid name %r" % (name)\<close>;
  \<open>repr_str\<close> is \<open>repr\<close> for a string without quotes or characters to escape.
\<close>

definition repr_str :: "string \<Rightarrow> string" where
  "repr_str s = [CHR 0x27] @ s @ [CHR 0x27]"

definition with_name :: "path \<Rightarrow> string \<Rightarrow> exn + path" where
  "with_name p n =
     (if name p = []
      then Inl (ValueError (''PosixPath('' @ repr_str (str_path p) @ '') has an empty name''))
      else if n = [] \<or> n = ''.'' \<or> CHR ''/'' \<in> set n
      then Inl (ValueError (''Invalid name '' @ repr_str n))
      else Inr (Path (anchor p) (butlast (parts p) @ [n])))"

text \<open>
  The invariant of pathlib's values: no component is empty, a single dot, or contains
  a slash.
\<close>

definition wf_path :: "path \<Rightarrow> bool" where
  "wf_path p = list_all (\<lambda>c. c \<noteq> [] \<and> c \<noteq> ''.'' \<and> CHR ''/'' \<notin> set c) (parts p)"

subsection \<open>Library: urllib.parse\<close>

text \<open>
  \<open>urlparse(url).path\<close> for a URL of ASCII characters; \<open>urlparse\<close> raises
  \<open>ValueError\<close> when the network location has one square bracket without the
  other.  (Python from 3.11.4 on also raises it when the text between the brackets is
  no IP literal; that check is not part of the model.)
  \<^verbatim>\<open>
  url = url.lstrip(_WHATWG_C0_CONTROL_OR_SPACE)
  for b in _UNSAFE_URL_BYTES_TO_REMOVE: url = url.replace(b, "")
  i = url.find(':')
  if i > 0 and url[0].isascii() and url[0].isalpha():
      for c in url[:i]:
          if c not in scheme_chars: break
      else: scheme, url = url[:i].lower(), url[i+1:]
  if url[:2] == '//':
      netloc, url = _splitnetloc(url, 2)
      if (('[' in netloc and ']' not in netloc) or
              (']' in netloc and '[' not in netloc)):
          raise ValueError("Invalid IPv6 URL")
  if allow_fragments and '#' in url: url, fragment = url.split('#', 1)
  if '?' in url: url, query = url.split('?', 1)
  \<close>
  and, in \<open>urlparse\<close>,
  \<^verbatim>\<open>
  if scheme in uses_params and ';' in url: url, params = _splitparams(url)
  \<close>
\<close>

definition upper_letters :: string where
  "upper_letters = ''ABCDEFGHIJKLMNOPQRSTUVWXYZ''"

definition lower_letters :: string where
  "lower_letters = ''abcdefghijklmnopqrstuvwxyz''"

definition scheme_chars :: string where
  "scheme_chars = lower_letters @ upper_letters @ ''0123456789+-.''"

definition lower :: "string \<Rightarrow> string" where
  "lower s =
     map (\<lambda>c. case map_of (zip upper_letters lower_letters) c of
                 None \<Rightarrow> c
               | Some l \<Rightarrow> l) s"

definition uses_params :: "string list" where
  "uses_params =
     [[], ''ftp'', ''hdl'', ''prospero'', ''http'', ''imap'', ''https'', ''shttp'', ''rtsp'',
      ''rtsps'', ''rtspu'', ''sip'', ''sips'', ''mms'', ''sftp'', ''tel'']"

definition clean_url :: "string \<Rightarrow> string" where
  "clean_url url =
     filter (\<lambda>c. c \<noteq> CHR 0x09 \<and> c \<noteq> CHR 0x0D \<and> c \<noteq> CHR 0x0A)
       (dropWhile (\<lambda>c. (of_char c :: nat) \<le> 32) url)"

definition split_scheme :: "string \<Rightarrow> string \<times> string" where
  "split_scheme url =
     (let pre = takeWhile (\<lambda>c. c \<noteq> CHR '':'') url
      in if CHR '':'' \<in> set url \<and> pre \<noteq> [] \<and> hd url \<in> set (lower_letters @ upper_letters)
            \<and> list_all (\<lambda>c. c \<in> set scheme_chars) pre
         then (lower pre, drop (length pre + 1) url)
         else ([], url))"

definition splitnetloc :: "string \<Rightarrow> string \<times> string" where
  "splitnetloc rest =
     (let netloc = takeWhile (\<lambda>c. c \<notin> set ''/?#'') rest
      in (netloc, drop (length netloc) rest))"

definition strip_fragment_query :: "string \<Rightarrow> string" where
  "strip_fragment_query url =
     takeWhile (\<lambda>c. c \<noteq> CHR ''?'') (takeWhile (\<lambda>c. c \<noteq> CHR ''#'') url)"

definition urlsplit :: "string \<Rightarrow> exn + string \<times> string" where
  "urlsplit url0 =
     (case split_scheme (clean_url url0) of
        (scheme, url) \<Rightarrow>
          if take 2 url = ''//'' then
            (case splitnetloc (drop 2 url) of
               (netloc, rest) \<Rightarrow>
                 if (CHR ''['' \<in> set netloc) \<noteq> (CHR '']'' \<in> set netloc)
                 then Inl (ValueError ''Invalid IPv6 URL'')
                 else Inr (scheme, strip_fragment_query rest))
          else Inr (scheme, strip_fragment_query url))"

definition splitparams :: "string \<Rightarrow> string" where
  "splitparams url =
     (case rfind CHR ''/'' url of
        None \<Rightarrow> takeWhile (\<lambda>c. c \<noteq> CHR '';'') url
      | Some j \<Rightarrow> take (j + 1) url @ takeWhile (\<lambda>c. c \<noteq> CHR '';'') (drop (j + 1) url))"

definition urlparse :: "string \<Rightarrow> exn + string" where
  "urlparse url =
     (case urlsplit url of
        Inl e \<Rightarrow> Inl e
      | Inr (scheme, p) \<Rightarrow>
          Inr (if scheme \<in> set uses_params \<and> CHR '';'' \<in> set p then splitparams p else p))"

text \<open>\<open>os.path.basename(p)\<close>: what follows the last slash.\<close>

definition basename :: "string \<Rightarrow> string" where
  "basename p = (case rfind CHR ''/'' p of None \<Rightarrow> p | Some j \<Rightarrow> drop (j + 1) p)"

text \<open>
  \<open>unquote(s)\<close>: a percent sign followed by two hexadecimal digits becomes the byte
  they denote; any other percent sign stays.  The result is the byte string; the
  decoding of bytes above 127 as UTF-8 is not part of the model.
\<close>

definition hexval :: "char \<Rightarrow> nat option" where
  "hexval c =
     map_of (zip ''0123456789abcdefABCDEF''
               [0, 1, 2, 3, 4, 5, 6, 7, 8, 9, 10, 11, 12, 13, 14, 15, 10, 11, 12, 13, 14, 15]) c"

fun unquote :: "string \<Rightarrow> string" where
  "unquote (c # h # l # cs) =
     (if c = CHR ''%'' then
        (case (hexval h, hexval l) of
           (Some a, Some b) \<Rightarrow> char_of (16 * a + b) # unquote cs
         | _ \<Rightarrow> c # unquote (h # l # cs))
      else c # unquote (h # l # cs))"
| "unquote cs = cs"

subsection \<open>filename\_from\_url\<close>

text \<open>
  \<^verbatim>\<open>
  def filename_from_url(url):
      p = urlparse(url)
      name = os.path.basename(p.path)
      name = unquote(name.split("?")[0])
      if not name:
          name = f"file_{abs(hash(url))}.pdf"
      name = name.replace("/", "_").replace("\\", "_")
      return name
  \<close>
  Python's \<open>hash\<close> of a string is keyed by a value the interpreter draws when it
  starts (unless \<open>PYTHONHASHSEED\<close> fixes it), so it is a parameter: the hash
  function of the running process.
\<close>

definition filename_from_url :: "(string \<Rightarrow> int) \<Rightarrow> string \<Rightarrow> exn + string" where
  "filename_from_url hash url =
     (case urlparse url of
        Inl e \<Rightarrow> Inl e
      | Inr p \<Rightarrow>
          (let name0 = basename p;
               name1 = unquote (hd (split_on CHR ''?'' name0));
               name2 = (if name1 = [] then ''file_'' @ dec (nat \<bar>hash url\<bar>) @ ''.pdf'' else name1)
           in Inr (replace CHR 0x5C CHR ''_'' (replace CHR ''/'' CHR ''_'' name2))))"

subsection \<open>The file system\<close>

text \<open>
  The file system maps a path to what is there: a file with its bytes, or a directory.
  Paths are compared as pathlib values: double dots and symbolic links are not
  resolved, and one thread runs at a time.  \<open>exists\<close> is a lookup; the errors
  the operating system can give on it are not modelled.
\<close>

datatype node = File string | Dir

type_synonym fs = "path \<rightharpoonup> node"

text \<open>\<open>p.exists()\<close>.\<close>

definition exists :: "fs \<Rightarrow> path \<Rightarrow> bool" where
  "exists fs p = (fs p \<noteq> None)"

subsection \<open>resolve\_collision\<close>

text \<open>
  \<^verbatim>\<open>
  def resolve_collision(path: Path) -> Path:
      if not path.exists():
          return path
      base = path.stem
      suffix = path.suffix
      i = 1
      while True:
          candidate = path.with_name(f"{base}_{i}{suffix}")
          if not candidate.exists():
              return candidate
          i += 1
  \<close>
  The loop has no bound, so it is a partial function: \<open>None\<close> is "does not return".
\<close>

partial_function (option) resolve_loop ::
  "fs \<Rightarrow> path \<Rightarrow> string \<Rightarrow> string \<Rightarrow> nat \<Rightarrow> (exn + path) option" where
  "resolve_loop fs p base sfx i =
     (case with_name p (base @ ''_'' @ dec i @ sfx) of
        Inl e \<Rightarrow> Some (Inl e)
      | Inr candidate \<Rightarrow>
          if \<not> exists fs candidate then Some (Inr candidate)
          else resolve_loop fs p base sfx (i + 1))"

definition resolve_collision :: "fs \<Rightarrow> path \<Rightarrow> (exn + path) option" where
  "resolve_collision fs p =
     (if \<not> exists fs p then Some (Inr p)
      else resolve_loop fs p (stem p) (suffix p) 1)"

text \<open>
  The specification's words for the numbered names: \<open>name_k\<close>, the number inserted
  before the extension, in the directory of \<open>p\<close>.
\<close>

definition numbered :: "path \<Rightarrow> nat \<Rightarrow> path" where
  "numbered p k = Path (anchor p) (butlast (parts p) @ [stem p @ ''_'' @ dec k @ suffix p])"

subsection \<open>The world outside: the server and the faults of the disk\<close>

text \<open>
  What \<open>session.get(url, stream=True, timeout=timeout)\<close> gives back, after the
  retries of the adapter: it raises (connection refused, time-out, retries used up), or
  it returns a response with a status, a reason, the URL answered and a body.  The
  body is what \<open>iter_content\<close> yields: chunks, and perhaps an exception when the
  connection breaks.
\<close>

datatype event = Chunk string | Broken exn

datatype reply = Raises exn | Response nat string string "event list"

text \<open>
  The world of one run: the hash function of the interpreter, the server, and for each
  operation on a file the exception it raises, if any (disk full, no permission).
  In \<open>write_err\<close> the number is the count of writes made before.
\<close>

record world =
  pyhash :: "string \<Rightarrow> int"
  session_get :: "string \<Rightarrow> int \<times> int \<Rightarrow> reply"
  open_err :: "path \<Rightarrow> exn option"
  write_err :: "path \<Rightarrow> nat \<Rightarrow> exn option"
  close_err :: "path \<Rightarrow> exn option"
  replace_err :: "path \<Rightarrow> exn option"
  unlink_err :: "path \<Rightarrow> exn option"

text \<open>
  \<open>r.raise_for_status()\<close> of requests:
  \<^verbatim>\<open>
  if 400 <= self.status_code < 500:
      http_error_msg = f"{self.status_code} Client Error: {reason} for url: {self.url}"
  elif 500 <= self.status_code < 600:
      http_error_msg = f"{self.status_code} Server Error: {reason} for url: {self.url}"
  if http_error_msg: raise HTTPError(http_error_msg, response=self)
  \<close>
\<close>

definition raise_for_status :: "nat \<Rightarrow> string \<Rightarrow> string \<Rightarrow> exn option" where
  "raise_for_status st rs u =
     (if 400 \<le> st \<and> st < 500
      then Some (HTTPError (dec st @ '' Client Error: '' @ rs @ '' for url: '' @ u))
      else if 500 \<le> st \<and> st < 600
      then Some (HTTPError (dec st @ '' Server Error: '' @ rs @ '' for url: '' @ u))
      else None)"

text \<open>\<open>open(p, "wb")\<close>: the file is created, or emptied when it is there.\<close>

definition open_wb :: "world \<Rightarrow> fs \<Rightarrow> path \<Rightarrow> exn + fs" where
  "open_wb w fs p =
     (case open_err w p of
        Some e \<Rightarrow> Inl e
      | None \<Rightarrow>
          (case fs p of
             Some Dir \<Rightarrow> Inl (OSError ''Is a directory'')
           | _ \<Rightarrow> Inr (fs(p \<mapsto> File []))))"

text \<open>\<open>f.write(chunk)\<close> on the file opened at \<open>p\<close>: the bytes are appended.\<close>

definition file_write :: "world \<Rightarrow> fs \<Rightarrow> path \<Rightarrow> nat \<Rightarrow> string \<Rightarrow> exn + fs" where
  "file_write w fs p k c =
     (case write_err w p k of
        Some e \<Rightarrow> Inl e
      | None \<Rightarrow> Inr (fs(p \<mapsto> File ((case fs p of Some (File b) \<Rightarrow> b | _ \<Rightarrow> []) @ c))))"

text \<open>\<open>src.replace(dst)\<close> of pathlib, the rename of the operating system.\<close>

definition path_replace :: "world \<Rightarrow> fs \<Rightarrow> path \<Rightarrow> path \<Rightarrow> exn + fs" where
  "path_replace w fs src dst =
     (case replace_err w src of
        Some e \<Rightarrow> Inl e
      | None \<Rightarrow>
          (case fs src of
             None \<Rightarrow> Inl (OSError ''No such file or directory'')
           | Some n \<Rightarrow>
               if fs dst = Some Dir then Inl (OSError ''Is a directory'')
               else Inr ((fs(src := None))(dst \<mapsto> n))))"

text \<open>\<open>p.unlink()\<close>.\<close>

definition unlink :: "world \<Rightarrow> fs \<Rightarrow> path \<Rightarrow> exn + fs" where
  "unlink w fs p =
     (case unlink_err w p of
        Some e \<Rightarrow> Inl e
      | None \<Rightarrow>
          (case fs p of
             None \<Rightarrow> Inl (OSError ''No such file or directory'')
           | Some Dir \<Rightarrow> Inl (OSError ''Is a directory'')
           | Some (File b) \<Rightarrow> Inr (fs(p := None))))"

subsection \<open>download\_one\<close>

text \<open>
  \<^verbatim>\<open>
  def download_one(url: str, dest_dir: str, timeout: tuple):
      session = get_session()
      name = filename_from_url(url)
      dest = Path(dest_dir) / name
      dest = resolve_collision(dest)
      temp = dest.with_name(dest.name + ".part")
      try:
          with session.get(url, stream=True, timeout=timeout) as r:
              r.raise_for_status()
              with open(temp, "wb") as f:
                  for chunk in r.iter_content(chunk_size=8192):
                      if chunk:
                          f.write(chunk)
          temp.replace(dest)
          return (url, True, str(dest))
      except Exception as e:
          try:
              if temp.exists():
                  temp.unlink()
          except:
              pass
          return (url, False, str(e))
  \<close>
  The session of the thread is in the world: \<open>session_get\<close> is its \<open>get\<close>.
  Every function below returns, beside its result, the states of the file system it
  went through, in order, one for each operation that changed it: what an observer of
  the directory can see while the download runs.
\<close>

text \<open>The loop over \<open>iter_content\<close>; \<open>k\<close> counts the writes made.\<close>

fun write_chunks :: "world \<Rightarrow> path \<Rightarrow> nat \<Rightarrow> event list \<Rightarrow> fs \<Rightarrow> exn option \<times> fs list" where
  "write_chunks w t k [] fs = (None, [])"
| "write_chunks w t k (Broken e # evs) fs = (Some e, [])"
| "write_chunks w t k (Chunk c # evs) fs =
     (if c = [] then write_chunks w t k evs fs
      else (case file_write w fs t k c of
              Inl e \<Rightarrow> (Some e, [])
            | Inr fs' \<Rightarrow>
                (case write_chunks w t (Suc k) evs fs' of
                   (r, tr) \<Rightarrow> (r, fs' # tr))))"

text \<open>
  The body of \<open>try\<close>: the exception that leaves it, if any, and the states gone
  through.  Leaving \<open>with open(...)\<close> closes the file, also on an exception; when
  closing raises, that exception is the one that leaves.
\<close>

definition try_body :: "world \<Rightarrow> string \<Rightarrow> int \<times> int \<Rightarrow> path \<Rightarrow> path \<Rightarrow> fs \<Rightarrow> exn option \<times> fs list" where
  "try_body w url timeout temp dest fs =
     (case session_get w url timeout of
        Raises e \<Rightarrow> (Some e, [])
      | Response st rs ru evs \<Rightarrow>
          (case raise_for_status st rs ru of
             Some e \<Rightarrow> (Some e, [])
           | None \<Rightarrow>
               (case open_wb w fs temp of
                  Inl e \<Rightarrow> (Some e, [])
                | Inr fs1 \<Rightarrow>
                    (case write_chunks w temp 0 evs fs1 of
                       (Some e, tr) \<Rightarrow>
                         (Some (case close_err w temp of None \<Rightarrow> e | Some e' \<Rightarrow> e'), fs1 # tr)
                     | (None, tr) \<Rightarrow>
                         (case close_err w temp of
                            Some e \<Rightarrow> (Some e, fs1 # tr)
                          | None \<Rightarrow>
                              (case path_replace w (last (fs1 # tr)) temp dest of
                                 Inl e \<Rightarrow> (Some e, fs1 # tr)
                               | Inr fs2 \<Rightarrow> (None, fs1 # tr @ [fs2])))))))"

text \<open>
  The handler's inner \<open>try\<close>: the states it adds (none, or the one without the
  temporary file).  An exception of \<open>unlink\<close> is swallowed.
\<close>

definition cleanup :: "world \<Rightarrow> fs \<Rightarrow> path \<Rightarrow> fs list" where
  "cleanup w fs temp =
     (if exists fs temp
      then (case unlink w fs temp of Inl e \<Rightarrow> [] | Inr fs' \<Rightarrow> [fs'])
      else [])"

type_synonym outcome = "string \<times> bool \<times> string"

text \<open>
  \<open>download_one\<close>: \<open>None\<close> when it does not return, \<open>Some (Inl e)\<close> when the
  exception \<open>e\<close> leaves it, \<open>Some (Inr (out, tr))\<close> when it returns the triple
  \<open>out\<close>, having gone through the states \<open>tr\<close>.
\<close>

definition download_one ::
  "world \<Rightarrow> string \<Rightarrow> string \<Rightarrow> int \<times> int \<Rightarrow> fs \<Rightarrow> (exn + outcome \<times> fs list) option" where
  "download_one w url dest_dir timeout fs =
     (case filename_from_url (pyhash w) url of
        Inl e \<Rightarrow> Some (Inl e)
      | Inr nm \<Rightarrow>
          (case resolve_collision fs (joinpath (parse_path dest_dir) nm) of
             None \<Rightarrow> None
           | Some (Inl e) \<Rightarrow> Some (Inl e)
           | Some (Inr dest) \<Rightarrow>
               (case with_name dest (name dest @ ''.part'') of
                  Inl e \<Rightarrow> Some (Inl e)
                | Inr temp \<Rightarrow>
                    (case try_body w url timeout temp dest fs of
                       (None, tr) \<Rightarrow> Some (Inr ((url, True, str_path dest), tr))
                     | (Some e, tr) \<Rightarrow>
                         Some (Inr ((url, False, str_exn e),
                                    tr @ cleanup w (last (fs # tr)) temp))))))"

text \<open>The destination and the temporary path of a call, as \<open>download_one\<close> computes them.\<close>

definition dest_of :: "world \<Rightarrow> string \<Rightarrow> string \<Rightarrow> fs \<Rightarrow> path option" where
  "dest_of w url dest_dir fs =
     (case filename_from_url (pyhash w) url of
        Inl e \<Rightarrow> None
      | Inr nm \<Rightarrow>
          (case resolve_collision fs (joinpath (parse_path dest_dir) nm) of
             Some (Inr dest) \<Rightarrow> Some dest
           | _ \<Rightarrow> None))"

definition temp_of :: "path \<Rightarrow> path" where
  "temp_of dest = Path (anchor dest) (butlast (parts dest) @ [name dest @ ''.part''])"

text \<open>The bytes of a body that arrives whole.\<close>

fun whole_body :: "event list \<Rightarrow> string option" where
  "whole_body [] = Some []"
| "whole_body (Broken e # evs) = None"
| "whole_body (Chunk c # evs) = map_option (\<lambda>b. c @ b) (whole_body evs)"

text \<open>
  A complete file at the destination: the body arrived whole and the file holds
  exactly its bytes.
\<close>

definition complete :: "world \<Rightarrow> string \<Rightarrow> int \<times> int \<Rightarrow> fs \<Rightarrow> path \<Rightarrow> bool" where
  "complete w url tm s dest =
     (case session_get w url tm of
        Raises e \<Rightarrow> False
      | Response st rs ru evs \<Rightarrow>
          (case whole_body evs of
             None \<Rightarrow> False
           | Some body \<Rightarrow> s dest = Some (File body)))"

subsection \<open>main\<close>

text \<open>\<^verbatim>\<open>workers = max(1, min(args.workers, len(urls)))\<close>\<close>

definition workers :: "int \<Rightarrow> 'a list \<Rightarrow> int" where
  "workers w urls = max 1 (min w (int (length urls)))"

text \<open>
  \<^verbatim>\<open>
  with concurrent.futures.ThreadPoolExecutor(max_workers=workers) as ex:
      futures = [ex.submit(download_one, url, str(dest_dir), timeout) for url in urls]
      for fut in concurrent.futures.as_completed(futures):
          url, ok, info = fut.result()
          if ok:
              print(...)
          else:
              print(...)
              results.append((url, info))
  \<close>
  The pool runs up to \<open>workers\<close> calls at the same time, with no lock between
  them.  Here the calls are run one after the other in the order of submission, which
  is one of the schedules of the pool: a future holds the triple returned or the
  exception raised, and the next call starts from the file system the last one left.
  A run of this model is therefore a run the program can make, and a failure shown in
  it is a failure of the program; what holds in this schedule is not shown for the
  schedules in which the steps of two calls interleave (both calls can then resolve
  their names from the same state of the directory).
\<close>

fun submit_all ::
  "world \<Rightarrow> string \<Rightarrow> int \<times> int \<Rightarrow> string list \<Rightarrow> fs \<Rightarrow> (exn + outcome) list option" where
  "submit_all w d t [] fs = Some []"
| "submit_all w d t (url # urls) fs =
     (case download_one w url d t fs of
        None \<Rightarrow> None
      | Some (Inl e) \<Rightarrow> map_option (\<lambda>futs. Inl e # futs) (submit_all w d t urls fs)
      | Some (Inr (out, tr)) \<Rightarrow>
          map_option (\<lambda>futs. Inr out # futs) (submit_all w d t urls (last (fs # tr))))"

text \<open>
  The loop over the completed futures: \<open>fut.result()\<close> raises what the call raised,
  and nothing in \<open>main\<close> catches it.  The result is the exception that ended the
  loop, if any, the triples the loop received, and the list \<open>results\<close>.
\<close>

fun report_loop ::
  "(exn + outcome) list \<Rightarrow> outcome list \<Rightarrow> (string \<times> string) list \<Rightarrow>
     exn option \<times> outcome list \<times> (string \<times> string) list" where
  "report_loop [] seen results = (None, seen, results)"
| "report_loop (Inl e # futs) seen results = (Some e, seen, results)"
| "report_loop (Inr (url, ok, info) # futs) seen results =
     (if ok then report_loop futs (seen @ [(url, ok, info)]) results
      else report_loop futs (seen @ [(url, ok, info)]) (results @ [(url, info)]))"

text \<open>
  \<open>main\<close> from line 106 on, with the arguments parsed, the URLs read and the
  directory made: \<open>args_workers\<close>, \<open>args_timeout\<close>, \<open>dest_dir\<close> and \<open>urls\<close>.
  The number of workers bounds how many calls run at once; in the schedule modelled
  here it has no other effect.
\<close>

definition main ::
  "world \<Rightarrow> int \<Rightarrow> int \<Rightarrow> path \<Rightarrow> string list \<Rightarrow> fs \<Rightarrow>
     (exn option \<times> outcome list \<times> (string \<times> string) list) option" where
  "main w args_workers args_timeout dest_dir urls fs =
     (if urls = [] then Some (None, [], [])
      else (let max_workers = workers args_workers urls;
                timeout = (5, args_timeout)
            in map_option (\<lambda>futs. report_loop futs [] [])
                 (submit_all w (str_path dest_dir) timeout urls fs)))"

subsection \<open>create\_session and the retries of urllib3\<close>
















subsection \<open>Reading a result, and a small world to run the program in\<close>

text \<open>The triple and the states of a call that returned.\<close>

definition result_outcome :: "(exn + outcome \<times> fs list) option \<Rightarrow> outcome option" where
  "result_outcome r = (case r of Some (Inr (out, tr)) \<Rightarrow> Some out | _ \<Rightarrow> None)"

definition result_trace :: "(exn + outcome \<times> fs list) option \<Rightarrow> fs list" where
  "result_trace r = (case r of Some (Inr (out, tr)) \<Rightarrow> tr | _ \<Rightarrow> [])"

text \<open>
  A server with four kinds of answers: a missing page, a body that breaks after two
  bytes, a host that is down, and for any other URL a small document in three chunks,
  the second one empty.  The disk has no faults.
\<close>

definition example_hash :: "string \<Rightarrow> int" where
  "example_hash s = - int (length s)"

definition example_get :: "string \<Rightarrow> int \<times> int \<Rightarrow> reply" where
  "example_get u t =
     (if u = ''http://x/404'' then Response 404 ''Not Found'' u []
      else if u = ''http://x/broken.pdf''
      then Response 200 ''OK'' u [Chunk ''ab'', Broken (RequestException ''Connection broken'')]
      else if u = ''http://down/a.pdf'' then Raises (RequestException ''Max retries exceeded'')
      else Response 200 ''OK'' u [Chunk ''%PDF'', Chunk [], Chunk ''-1.4''])"

definition no_fault :: "path \<Rightarrow> exn option" where
  "no_fault p = None"

definition no_write_fault :: "path \<Rightarrow> nat \<Rightarrow> exn option" where
  "no_write_fault p k = None"

definition example_world :: world where
  "example_world =
     \<lparr>pyhash = example_hash, session_get = example_get,
      open_err = no_fault, write_err = no_write_fault, close_err = no_fault,
      replace_err = no_fault, unlink_err = no_fault\<rparr>"

text \<open>The same world on a disk that refuses to delete.\<close>

definition denied :: "path \<Rightarrow> exn option" where
  "denied p = Some (OSError ''Permission denied'')"

definition locked_world :: world where
  "locked_world = example_world\<lparr>unlink_err := denied\<rparr>"

text \<open>
  Three file systems: the directory \<open>pdfs\<close> alone; the same with \<open>a.pdf\<close> and
  \<open>a_1.pdf\<close> in it; and the current directory alone.
\<close>

definition example_fs :: fs where
  "example_fs = Map.empty(Path [] [''pdfs''] \<mapsto> Dir)"

definition crowded_fs :: fs where
  "crowded_fs =
     example_fs(Path [] [''pdfs'', ''a.pdf''] \<mapsto> File ''one'',
                Path [] [''pdfs'', ''a_1.pdf''] \<mapsto> File ''two'')"



text \<open>
  The hash function of another run of the interpreter, which salts its string hashes
  differently.
\<close>

definition other_hash :: "string \<Rightarrow> int" where
  "other_hash s = int (length s) + 1"

text \<open>
  The file system a call leaves behind, and what an observer sees at one path while
  the call runs.
\<close>

definition fs_after :: "fs \<Rightarrow> (exn + outcome \<times> fs list) option \<Rightarrow> fs" where
  "fs_after fs r = last (fs # result_trace r)"

definition seen_at :: "path \<Rightarrow> (exn + outcome \<times> fs list) option \<Rightarrow> node option list" where
  "seen_at p r = map (\<lambda>s. s p) (result_trace r)"

declare resolve_loop.simps [code]

section \<open>Properties\<close>

subsection \<open>Decimal numerals and names\<close>

lemma undigit_digit_char: "d < 10 \<Longrightarrow> undigit (digit_char d) = d"
proof -
  assume "d < 10"
  then have "d \<in> {0,1,2,3,4,5,6,7,8,9}" by auto
  then show ?thesis by (auto simp: undigit_def digit_char_def)
qed

lemma undec_snoc: "undec (s @ [c]) = 10 * undec s + undigit c"
  by (simp add: undec_def)

lemma undec_dec: "undec (dec n) = n"
proof (induction n rule: dec.induct)
  case (1 n)
  show ?case
  proof (cases "n < 10")
    case True
    then show ?thesis by (simp add: dec.simps[of n] undec_def undigit_digit_char)
  next
    case False
    then have "undec (dec n) = 10 * undec (dec (n div 10)) + undigit (digit_char (n mod 10))"
      by (simp add: dec.simps[of n] undec_snoc)
    with False 1 show ?thesis by (simp add: undigit_digit_char)
  qed
qed

lemma dec_inj: "dec m = dec n \<Longrightarrow> m = n"
  by (metis undec_dec)

lemma digit_char_set: "d < 10 \<Longrightarrow> digit_char d \<in> set ''0123456789''"
  unfolding digit_char_def by (rule nth_mem) simp

lemma dec_digits: "set (dec n) \<subseteq> set ''0123456789''"
proof (induction n rule: dec.induct)
  case (1 n)
  show ?case
  proof (cases "n < 10")
    case True
    then show ?thesis using digit_char_set[of n] by (simp add: dec.simps[of n])
  next
    case False
    have "n mod 10 < 10" by simp
    from digit_char_set[OF this] False 1 show ?thesis by (simp add: dec.simps[of n])
  qed
qed

lemma dec_no_slash: "CHR ''/'' \<notin> set (dec n)"
  using dec_digits[of n] by auto

lemma dec_nonempty: "dec n \<noteq> []"
  by (subst dec.simps) simp

lemma stem_suffix: "stem p @ suffix p = name p"
  by (simp add: stem_def suffix_def Let_def split: option.splits)

lemma name_no_slash: "wf_path p \<Longrightarrow> CHR ''/'' \<notin> set (name p)"
  by (auto simp: wf_path_def name_def list_all_iff)

lemma stem_suffix_no_slash:
  assumes "wf_path p"
  shows "CHR ''/'' \<notin> set (stem p)" "CHR ''/'' \<notin> set (suffix p)"
proof -
  have "set (stem p) \<union> set (suffix p) = set (name p)"
    by (metis set_append stem_suffix)
  with name_no_slash[OF assms] show "CHR ''/'' \<notin> set (stem p)" "CHR ''/'' \<notin> set (suffix p)"
    by auto
qed

lemma numbered_name_valid:
  "stem p @ ''_'' @ dec k @ suffix p \<noteq> [] \<and> stem p @ ''_'' @ dec k @ suffix p \<noteq> ''.''"
  using dec_nonempty[of k] by (cases "stem p") (auto simp: Cons_eq_append_conv)

lemma with_name_numbered:
  assumes "wf_path p" "name p \<noteq> []"
  shows "with_name p (stem p @ ''_'' @ dec k @ suffix p) = Inr (numbered p k)"
  using assms numbered_name_valid[of p k] stem_suffix_no_slash[OF assms(1)] dec_no_slash[of k]
  by (simp add: with_name_def numbered_def)

lemma numbered_inj: "numbered p j = numbered p k \<Longrightarrow> j = k"
  by (auto simp: numbered_def dest: dec_inj)

lemma free_number_exists:
  assumes "finite (dom fs)"
  shows "\<exists>k\<ge>i. \<not> exists fs (numbered p k)"
proof (rule ccontr)
  assume "\<not> ?thesis"
  then have "numbered p ` {i..} \<subseteq> dom fs" by (auto simp: exists_def)
  then have "finite (numbered p ` {i..})" using assms finite_subset by blast
  moreover have "inj_on (numbered p) {i..}" by (auto simp: inj_on_def dest: numbered_inj)
  ultimately have "finite {i..}" by (rule finite_imageD)
  then show False by (simp add: infinite_Ici)
qed

lemma resolve_loop_first:
  assumes "wf_path p" "name p \<noteq> []" "i \<le> k" "\<not> exists fs (numbered p k)"
    "\<forall>j. i \<le> j \<and> j < k \<longrightarrow> exists fs (numbered p j)"
  shows "resolve_loop fs p (stem p) (suffix p) i = Some (Inr (numbered p k))"
  using assms(3,5)
proof (induction "k - i" arbitrary: i)
  case 0
  then have "i = k" by simp
  then show ?case using assms(4) with_name_numbered[OF assms(1,2), of k]
    by (subst resolve_loop.simps) simp
next
  case (Suc d)
  then have "i < k" by simp
  with Suc.prems have ex: "exists fs (numbered p i)" by simp
  have "resolve_loop fs p (stem p) (suffix p) (i + 1) = Some (Inr (numbered p k))"
    using Suc by (intro Suc.hyps(1)) auto
  then show ?case using ex with_name_numbered[OF assms(1,2), of i]
    by (subst resolve_loop.simps) simp
qed

lemma resolve_collision_numbered:
  assumes "finite (dom fs)" and "wf_path p" and "name p \<noteq> []"
  shows "\<exists>q. resolve_collision fs p = Some (Inr q) \<and> \<not> exists fs q \<and>
           (if exists fs p
            then \<exists>k\<ge>1. q = numbered p k \<and> (\<forall>j. 1 \<le> j \<and> j < k \<longrightarrow> exists fs (numbered p j))
            else q = p)"
proof (cases "exists fs p")
  case False
  then show ?thesis by (simp add: resolve_collision_def)
next
  case True
  define k where "k = (LEAST k. 1 \<le> k \<and> \<not> exists fs (numbered p k))"
  from free_number_exists[OF assms(1), of 1 p]
  have ex: "\<exists>k. 1 \<le> k \<and> \<not> exists fs (numbered p k)" by blast
  have k: "1 \<le> k \<and> \<not> exists fs (numbered p k)"
    unfolding k_def using ex by (rule LeastI_ex)
  have least: "\<forall>j. 1 \<le> j \<and> j < k \<longrightarrow> exists fs (numbered p j)"
    unfolding k_def using not_less_Least by blast
  have "resolve_loop fs p (stem p) (suffix p) 1 = Some (Inr (numbered p k))"
    using assms(2,3) k least by (intro resolve_loop_first) auto
  with True k least show ?thesis
    by (auto simp: resolve_collision_def)
qed

lemma resolve_loop_absent:
  assumes "resolve_loop fs p b sfx i = Some r"
  shows "\<forall>q. r = Inr q \<longrightarrow> \<not> exists fs q"
proof (rule resolve_loop.raw_induct[rotated 1, OF assms])
  fix f fs' p' b' sfx' i' r'
  assume ih: "\<And>fs p b sfx i r. f fs p b sfx i = Some r \<Longrightarrow> \<forall>q. r = Inr q \<longrightarrow> \<not> exists fs q"
    and step: "(case with_name p' (b' @ ''_'' @ dec i' @ sfx') of
                 Inl e \<Rightarrow> Some (Inl e)
               | Inr candidate \<Rightarrow>
                   if \<not> exists fs' candidate then Some (Inr candidate)
                   else f fs' p' b' sfx' (i' + 1)) = Some r'"
  show "\<forall>q. r' = Inr q \<longrightarrow> \<not> exists fs' q"
  proof (cases "with_name p' (b' @ ''_'' @ dec i' @ sfx')")
    case (Inl e)
    with step show ?thesis by auto
  next
    case (Inr c)
    show ?thesis
    proof (cases "exists fs' c")
      case True
      with step Inr have "f fs' p' b' sfx' (i' + 1) = Some r'" by simp
      then show ?thesis by (rule ih)
    next
      case False
      with step Inr show ?thesis by auto
    qed
  qed
qed

lemma resolve_collision_absent:
  "resolve_collision fs p = Some (Inr q) \<Longrightarrow> \<not> exists fs q"
  using resolve_loop_absent[of fs p "stem p" "suffix p" 1 "Inr q"]
  by (auto simp: resolve_collision_def split: if_splits)

subsection \<open>File names from URLs\<close>

lemma replace_absent: "a \<noteq> b \<Longrightarrow> a \<notin> set (replace a b s)"
  by (auto simp: replace_def)

lemma replace_keeps_absent: "c \<notin> set s \<Longrightarrow> c \<noteq> b \<Longrightarrow> c \<notin> set (replace a b s)"
  by (auto simp: replace_def)

lemma replace_Nil: "(replace a b s = []) = (s = [])"
  by (simp add: replace_def)

lemma replace_id: "a \<notin> set s \<Longrightarrow> replace a b s = s"
  by (induction s) (auto simp: replace_def)

lemma filename_sanitized:
  assumes "filename_from_url h url = Inr nm"
  shows "nm \<noteq> [] \<and> CHR ''/'' \<notin> set nm \<and> CHR 0x5C \<notin> set nm"
proof -
  from assms obtain n2 where nm: "nm = replace CHR 0x5C CHR ''_'' (replace CHR ''/'' CHR ''_'' n2)"
    and n2: "n2 \<noteq> []"
    by (auto simp: filename_from_url_def Let_def split: sum.splits if_splits)
  have "CHR ''/'' \<notin> set (replace CHR ''/'' CHR ''_'' n2)"
    by (rule replace_absent) simp
  then have "CHR ''/'' \<notin> set nm"
    unfolding nm by (rule replace_keeps_absent) simp
  moreover have "CHR 0x5C \<notin> set nm"
    unfolding nm by (rule replace_absent) simp
  moreover have "nm \<noteq> []" using n2 by (simp add: nm replace_Nil)
  ultimately show ?thesis by simp
qed

lemma split_on_absent: "c \<notin> set s \<Longrightarrow> split_on c s = [s]"
  by (induction s) auto

lemma split_on_pieces: "x \<in> set (split_on c s) \<Longrightarrow> c \<notin> set x"
  by (induction s arbitrary: x) (auto split: if_splits list.splits)

lemma wf_parse_path: "wf_path (parse_path s)"
  by (auto simp: wf_path_def parse_path_def list_all_iff dest: split_on_pieces)

lemma parse_path_single:
  assumes "nm \<noteq> []" "CHR ''/'' \<notin> set nm" "nm \<noteq> ''.''"
  shows "parse_path nm = Path [] [nm]"
proof -
  from assms have "takeWhile (\<lambda>c. c = CHR ''/'') nm = []"
    by (cases nm) auto
  with assms show ?thesis by (simp add: parse_path_def split_on_absent)
qed

lemma joinpath_single:
  assumes "nm \<noteq> []" "CHR ''/'' \<notin> set nm" "nm \<noteq> ''.''"
  shows "joinpath d nm = Path (anchor d) (parts d @ [nm])"
  by (simp add: joinpath_def parse_path_single[OF assms])

lemma wf_joinpath: "wf_path d \<Longrightarrow> wf_path (joinpath d s)"
  using wf_parse_path[of s]
  by (cases "parse_path s") (auto simp: joinpath_def wf_path_def)

lemma fallback_chars: "CHR ''/'' \<notin> set (''file_'' @ dec n @ ''.pdf'') \<and> CHR 0x5C \<notin> set (''file_'' @ dec n @ ''.pdf'')"
  using dec_digits[of n] by auto

lemma filename_fallback:
  assumes "urlparse url = Inr p" "basename p = []"
  shows "filename_from_url h url = Inr (''file_'' @ dec (nat \<bar>h url\<bar>) @ ''.pdf'')"
  using assms fallback_chars[of "nat \<bar>h url\<bar>"]
  by (simp add: filename_from_url_def replace_id)

lemma fallback_eq: "(''file_'' @ dec (nat \<bar>a\<bar>) @ ''.pdf'' = ''file_'' @ dec (nat \<bar>b\<bar>) @ ''.pdf'') = (\<bar>a\<bar> = \<bar>b::int\<bar>)"
  by (auto dest: dec_inj)

lemma unquote_Nil: "(unquote s = []) = (s = [])"
  by (induction s rule: unquote.induct) (auto split: option.splits)

lemma filename_not_fallback:
  assumes "urlparse url = Inr p" "basename p \<noteq> []" "CHR ''?'' \<notin> set (basename p)"
  shows "filename_from_url h url = Inr (replace CHR 0x5C CHR ''_'' (replace CHR ''/'' CHR ''_'' (unquote (basename p))))"
  using assms by (simp add: filename_from_url_def split_on_absent unquote_Nil)

subsection \<open>The write loop and the body of try\<close>

lemma file_write_other: "file_write w fs t k c = Inr fs' \<Longrightarrow> p \<noteq> t \<Longrightarrow> fs' p = fs p"
  by (auto simp: file_write_def split: option.splits)

lemma file_write_temp:
  "file_write w fs t k c = Inr fs' \<Longrightarrow> fs t = Some (File b) \<Longrightarrow> fs' t = Some (File (b @ c))"
  by (auto simp: file_write_def split: option.splits)

lemma write_chunks_other:
  "write_chunks w t k evs fs = (r, tr) \<Longrightarrow> p \<noteq> t \<Longrightarrow> s \<in> set tr \<Longrightarrow> s p = fs p"
proof (induction w t k evs fs arbitrary: r tr rule: write_chunks.induct)
  case (1 w t k fs)
  then show ?case by simp
next
  case (2 w t k e evs fs)
  then show ?case by simp
next
  case (3 w t k c evs fs)
  show ?case
  proof (cases "c = []")
    case True
    with 3 show ?thesis by simp
  next
    case False
    show ?thesis
    proof (cases "file_write w fs t k c")
      case (Inl e)
      with False 3 show ?thesis by simp
    next
      case (Inr fs')
      obtain r' tr' where rec: "write_chunks w t (Suc k) evs fs' = (r', tr')"
        by (cases "write_chunks w t (Suc k) evs fs'")
      with False Inr "3.prems" have tr: "tr = fs' # tr'" by simp
      have fs': "fs' p = fs p" using file_write_other[OF Inr "3.prems"(2)] .
      from "3.prems"(3) tr consider "s = fs'" | "s \<in> set tr'" by auto
      then show ?thesis
      proof cases
        case 1
        with fs' show ?thesis by simp
      next
        case 2
        from "3.IH"(2)[OF False Inr rec "3.prems"(2) 2] fs' show ?thesis by simp
      qed
    qed
  qed
qed

lemma write_chunks_whole:
  "write_chunks w t k evs fs = (None, tr) \<Longrightarrow> fs t = Some (File b) \<Longrightarrow>
     \<exists>body. whole_body evs = Some body \<and> last (fs # tr) t = Some (File (b @ body))"
proof (induction w t k evs fs arbitrary: tr b rule: write_chunks.induct)
  case (1 w t k fs)
  then show ?case by simp
next
  case (2 w t k e evs fs)
  then show ?case by simp
next
  case (3 w t k c evs fs)
  show ?case
  proof (cases "c = []")
    case True
    with 3 show ?thesis by simp
  next
    case False
    show ?thesis
    proof (cases "file_write w fs t k c")
      case (Inl e)
      with False 3 show ?thesis by simp
    next
      case (Inr fs')
      obtain r' tr' where rec: "write_chunks w t (Suc k) evs fs' = (r', tr')"
        by (cases "write_chunks w t (Suc k) evs fs'")
      with False Inr "3.prems" have tr: "tr = fs' # tr'" and r': "r' = None" by simp_all
      have "fs' t = Some (File (b @ c))" using file_write_temp[OF Inr "3.prems"(2)] .
      from "3.IH"(2)[OF False Inr rec[unfolded r'] this]
      obtain body where "whole_body evs = Some body" "last (fs' # tr') t = Some (File ((b @ c) @ body))"
        by blast
      then show ?thesis by (simp add: tr)
    qed
  qed
qed

lemma open_wb_other: "open_wb w fs t = Inr fs1 \<Longrightarrow> p \<noteq> t \<Longrightarrow> fs1 p = fs p"
  by (auto simp: open_wb_def split: option.splits node.splits)

lemma open_wb_temp: "open_wb w fs t = Inr fs1 \<Longrightarrow> fs1 t = Some (File [])"
  by (auto simp: open_wb_def split: option.splits node.splits)

lemma try_body_failure:
  assumes "try_body w url tm temp dest fs = (Some e, tr)" "dest \<noteq> temp"
  shows "\<forall>s \<in> set tr. s dest = fs dest"
proof -
  show ?thesis
  proof (cases "session_get w url tm")
    case (Raises e')
    with assms show ?thesis by (simp add: try_body_def)
  next
    case (Response st rs ru evs)
    show ?thesis
    proof (cases "raise_for_status st rs ru")
      case (Some e')
      with Response assms show ?thesis by (simp add: try_body_def)
    next
      case None
      show ?thesis
      proof (cases "open_wb w fs temp")
        case (Inl e')
        with None Response assms show ?thesis by (simp add: try_body_def)
      next
        case (Inr fs1)
        obtain r' tr' where wc: "write_chunks w temp 0 evs fs1 = (r', tr')"
          by (cases "write_chunks w temp 0 evs fs1")
        have tr: "tr = fs1 # tr'"
          using assms(1) Response None Inr wc
          by (auto simp: try_body_def split: option.splits sum.splits)
        have "fs1 dest = fs dest" using open_wb_other[OF Inr assms(2)] .
        moreover have "\<forall>s \<in> set tr'. s dest = fs1 dest"
          using write_chunks_other[OF wc assms(2)] by blast
        ultimately show ?thesis by (simp add: tr)
      qed
    qed
  qed
qed

lemma file_write_is_file: "file_write w fs t k c = Inr fs' \<Longrightarrow> \<exists>b. fs' t = Some (File b)"
  by (auto simp: file_write_def split: option.splits)

lemma write_chunks_temp_file:
  "write_chunks w t k evs fs = (r, tr) \<Longrightarrow> s \<in> set tr \<Longrightarrow> \<exists>b. s t = Some (File b)"
proof (induction w t k evs fs arbitrary: r tr rule: write_chunks.induct)
  case (1 w t k fs)
  then show ?case by simp
next
  case (2 w t k e evs fs)
  then show ?case by simp
next
  case (3 w t k c evs fs)
  show ?case
  proof (cases "c = []")
    case True
    with 3 show ?thesis by simp
  next
    case False
    show ?thesis
    proof (cases "file_write w fs t k c")
      case (Inl e)
      with False 3 show ?thesis by simp
    next
      case (Inr fs')
      obtain r' tr' where rec: "write_chunks w t (Suc k) evs fs' = (r', tr')"
        by (cases "write_chunks w t (Suc k) evs fs'")
      with False Inr "3.prems" have tr: "tr = fs' # tr'" by simp
      from "3.prems"(2) tr consider "s = fs'" | "s \<in> set tr'" by auto
      then show ?thesis
      proof cases
        case 1
        with file_write_is_file[OF Inr] show ?thesis by simp
      next
        case 2
        from "3.IH"(2)[OF False Inr rec 2] show ?thesis .
      qed
    qed
  qed
qed

lemma try_body_failure_temp:
  assumes "try_body w url tm temp dest fs = (Some e, tr)"
  shows "last (fs # tr) temp = fs temp \<or> (\<exists>b. last (fs # tr) temp = Some (File b))"
proof (cases "tr = []")
  case True
  then show ?thesis by simp
next
  case False
  from assms False obtain st rs ru evs fs1 r' tr' where
    op: "open_wb w fs temp = Inr fs1" and wc: "write_chunks w temp 0 evs fs1 = (r', tr')"
    and tr: "tr = fs1 # tr'"
    by (auto simp: try_body_def split: reply.splits option.splits sum.splits prod.splits)
  have "\<forall>s \<in> set tr. \<exists>b. s temp = Some (File b)"
    using open_wb_temp[OF op] write_chunks_temp_file[OF wc] by (auto simp: tr)
  moreover have "last (fs # tr) \<in> set tr" using False by simp
  ultimately show ?thesis by blast
qed

lemma path_replace_result:
  "path_replace w fs src dst = Inr fs2 \<Longrightarrow> src \<noteq> dst \<Longrightarrow> fs2 dst = fs src \<and> fs2 src = None"
  by (auto simp: path_replace_def split: option.splits if_splits)

lemma try_body_success:
  assumes "try_body w url tm temp dest fs = (None, tr)" "dest \<noteq> temp"
  shows "tr \<noteq> [] \<and> (\<forall>s \<in> set (butlast tr). s dest = fs dest) \<and>
         complete w url tm (last tr) dest \<and> last tr temp = None"
proof -
  from assms(1) obtain st rs ru evs fs1 tr' fs2 where
    sg: "session_get w url tm = Response st rs ru evs"
    and op: "open_wb w fs temp = Inr fs1" and wc: "write_chunks w temp 0 evs fs1 = (None, tr')"
    and rp: "path_replace w (last (fs1 # tr')) temp dest = Inr fs2"
    and tr: "tr = fs1 # tr' @ [fs2]"
    by (auto simp: try_body_def split: reply.splits option.splits sum.splits prod.splits)
  from write_chunks_whole[OF wc open_wb_temp[OF op]]
  obtain body where body: "whole_body evs = Some body" "last (fs1 # tr') temp = Some (File body)"
    by auto
  from path_replace_result[OF rp] assms(2) body
  have fs2: "fs2 dest = Some (File body)" "fs2 temp = None" by auto
  have "fs1 dest = fs dest" using open_wb_other[OF op assms(2)] .
  moreover have "\<forall>s \<in> set tr'. s dest = fs1 dest"
    using write_chunks_other[OF wc assms(2)] by blast
  ultimately have "\<forall>s \<in> set (butlast tr). s dest = fs dest"
    by (simp add: tr butlast_append)
  moreover have "last tr = fs2" by (simp add: tr)
  ultimately show ?thesis using fs2 body sg by (simp add: complete_def tr)
qed

lemma with_name_temp:
  assumes "with_name dest (name dest @ ''.part'') = Inr temp"
  shows "temp = temp_of dest \<and> dest \<noteq> temp"
proof -
  from assms have nm: "name dest \<noteq> []" and t: "temp = temp_of dest"
    by (auto simp: with_name_def temp_of_def split: if_splits)
  from nm have ps: "parts dest \<noteq> []" by (auto simp: name_def)
  then have eq: "parts dest = butlast (parts dest) @ [name dest]" by (simp add: name_def)
  have "parts dest \<noteq> butlast (parts dest) @ [name dest @ ''.part'']"
  proof
    assume "parts dest = butlast (parts dest) @ [name dest @ ''.part'']"
    with eq have "butlast (parts dest) @ [name dest] = butlast (parts dest) @ [name dest @ ''.part'']"
      by simp
    then show False by simp
  qed
  then have "dest \<noteq> temp_of dest" by (cases dest) (auto simp: temp_of_def)
  with t show ?thesis by simp
qed

lemma unlink_result: "unlink w fs p = Inr fs' \<Longrightarrow> fs' = fs(p := None)"
  by (simp add: unlink_def split: option.splits node.splits)

lemma cleanup_cases: "cleanup w fs temp = [] \<or> cleanup w fs temp = [fs(temp := None)]"
proof (cases "unlink w fs temp")
  case (Inl e)
  then show ?thesis by (simp add: cleanup_def)
next
  case (Inr fs')
  from unlink_result[OF Inr] Inr show ?thesis by (simp add: cleanup_def)
qed

lemma cleanup_dest:
  assumes "dest \<noteq> temp" and "s \<in> set (cleanup w fs temp)"
  shows "s dest = fs dest"
  using assms cleanup_cases[of w fs temp] by auto

lemma cleanup_temp:
  assumes "unlink_err w temp = None" "fs temp \<noteq> Some Dir"
  shows "last (fs # cleanup w fs temp) temp = None"
  using assms
  by (cases "fs temp") (auto simp: cleanup_def unlink_def exists_def split: node.splits)

subsection \<open>download\_one\<close>

lemma download_one_unfold:
  assumes "filename_from_url (pyhash w) url = Inr nm"
    and "resolve_collision fs (joinpath (parse_path d) nm) = Some (Inr dest)"
    and "with_name dest (name dest @ ''.part'') = Inr temp"
  shows "download_one w url d tm fs =
           (case try_body w url tm temp dest fs of
              (None, tr) \<Rightarrow> Some (Inr ((url, True, str_path dest), tr))
            | (Some e, tr) \<Rightarrow>
                Some (Inr ((url, False, str_exn e), tr @ cleanup w (last (fs # tr)) temp)))"
  unfolding download_one_def using assms by simp

lemma download_one_Inr:
  assumes "download_one w url d tm fs = Some (Inr (out, tr))"
  obtains dest r tr0 where
    "dest_of w url d fs = Some dest" "fs dest = None" "dest \<noteq> temp_of dest"
    "try_body w url tm (temp_of dest) dest fs = (r, tr0)"
    "r = None \<longrightarrow> out = (url, True, str_path dest) \<and> tr = tr0"
    "\<forall>e. r = Some e \<longrightarrow> out = (url, False, str_exn e) \<and> tr = tr0 @ cleanup w (last (fs # tr0)) (temp_of dest)"
proof -
  obtain nm where nm: "filename_from_url (pyhash w) url = Inr nm"
    using assms by (cases "filename_from_url (pyhash w) url") (simp_all add: download_one_def)
  let ?p = "joinpath (parse_path d) nm"
  obtain dest where rc: "resolve_collision fs ?p = Some (Inr dest)"
  proof (cases "resolve_collision fs ?p")
    case None
    with assms nm show ?thesis by (simp add: download_one_def)
  next
    case (Some x)
    with assms nm that show ?thesis by (cases x) (simp_all add: download_one_def)
  qed
  obtain temp where wn: "with_name dest (name dest @ ''.part'') = Inr temp"
    using assms nm rc
    by (cases "with_name dest (name dest @ ''.part'')") (simp_all add: download_one_def)
  from with_name_temp[OF wn] have t: "temp = temp_of dest" and ne: "dest \<noteq> temp_of dest" by auto
  obtain r tr0 where tb: "try_body w url tm (temp_of dest) dest fs = (r, tr0)"
    by (cases "try_body w url tm (temp_of dest) dest fs")
  have d: "dest_of w url d fs = Some dest" using nm rc by (simp add: dest_of_def)
  have a: "fs dest = None" using resolve_collision_absent[OF rc] by (simp add: exists_def)
  note unf = download_one_unfold[OF nm rc wn[unfolded t], of tm]
  have 1: "r = None \<longrightarrow> out = (url, True, str_path dest) \<and> tr = tr0"
    using assms unf tb by auto
  have 2: "\<forall>e. r = Some e \<longrightarrow> out = (url, False, str_exn e) \<and> tr = tr0 @ cleanup w (last (fs # tr0)) (temp_of dest)"
    using assms unf tb by auto
  from that[OF d a ne tb 1 2] show ?thesis .
qed

lemma last_with_cleanup:
  "last (fs # tr0 @ cleanup w (last (fs # tr0)) t) =
   last (last (fs # tr0) # cleanup w (last (fs # tr0)) t)"
proof (cases "cleanup w (last (fs # tr0)) t = []")
  case True
  then show ?thesis by simp
next
  case False
  then show ?thesis by (simp del: last.simps add: last_append last_ConsR)
qed

lemma atomic_publish_aux:
  assumes "download_one w url d tm fs = Some (Inr ((u, ok, info), tr))"
  shows "\<exists>dest. dest_of w url d fs = Some dest \<and>
           (\<forall>s \<in> set (butlast (fs # tr)). s dest = None) \<and>
           (if ok then complete w url tm (last (fs # tr)) dest
            else last (fs # tr) dest = None)"
proof -
  from download_one_Inr[OF assms] obtain dest r tr0 where
    d: "dest_of w url d fs = Some dest" and a: "fs dest = None" and ne: "dest \<noteq> temp_of dest"
    and tb: "try_body w url tm (temp_of dest) dest fs = (r, tr0)"
    and good: "r = None \<longrightarrow> (u, ok, info) = (url, True, str_path dest) \<and> tr = tr0"
    and bad: "\<forall>e. r = Some e \<longrightarrow> (u, ok, info) = (url, False, str_exn e) \<and> tr = tr0 @ cleanup w (last (fs # tr0)) (temp_of dest)"
    by blast
  show ?thesis
  proof (cases r)
    case None
    with good have o: "ok" and tr: "tr = tr0" by auto
    from try_body_success[OF tb[unfolded None] ne] a
    have "tr0 \<noteq> []" "\<forall>s \<in> set (butlast tr0). s dest = None" "complete w url tm (last tr0) dest"
      by auto
    then show ?thesis using d a o by (auto simp: tr intro!: exI[of _ dest])
  next
    case (Some e)
    with bad have o: "\<not> ok" and tr: "tr = tr0 @ cleanup w (last (fs # tr0)) (temp_of dest)" by auto
    have tr0: "\<forall>s \<in> set tr0. s dest = None"
      using try_body_failure[OF tb[unfolded Some] ne] a by simp
    then have l: "last (fs # tr0) dest = None" using a
      by (cases "tr0 = []") auto
    have "\<forall>s \<in> set (cleanup w (last (fs # tr0)) (temp_of dest)). s dest = None"
      using cleanup_dest[OF ne] l by metis
    with tr0 a have all: "\<forall>s \<in> set (fs # tr). s dest = None" by (auto simp: tr)
    then have "\<forall>s \<in> set (butlast (fs # tr)). s dest = None"
      by (meson in_set_butlastD)
    moreover have "last (fs # tr) dest = None"
    proof -
      have "last (fs # tr) \<in> set (fs # tr)" by (rule last_in_set) simp
      with all show ?thesis by blast
    qed
    ultimately show ?thesis using d o by auto
  qed
qed

lemma failure_detail_aux:
  assumes "download_one w url d tm fs = Some (Inr ((u, ok, info), tr))" and "\<not> ok"
  shows "\<exists>dest e. dest_of w url d fs = Some dest \<and>
            fst (try_body w url tm (temp_of dest) dest fs) = Some e \<and> info = str_exn e \<and>
            (unlink_err w (temp_of dest) = None \<and> fs (temp_of dest) \<noteq> Some Dir
               \<longrightarrow> last (fs # tr) (temp_of dest) = None)"
proof -
  from download_one_Inr[OF assms(1)] obtain dest r tr0 where
    d: "dest_of w url d fs = Some dest" and a: "fs dest = None" and ne: "dest \<noteq> temp_of dest"
    and tb: "try_body w url tm (temp_of dest) dest fs = (r, tr0)"
    and good: "r = None \<longrightarrow> (u, ok, info) = (url, True, str_path dest) \<and> tr = tr0"
    and bad: "\<forall>e. r = Some e \<longrightarrow> (u, ok, info) = (url, False, str_exn e) \<and> tr = tr0 @ cleanup w (last (fs # tr0)) (temp_of dest)"
    by blast
  from good assms(2) obtain e where e: "r = Some e" by (cases r) auto
  with bad have info: "info = str_exn e" and tr: "tr = tr0 @ cleanup w (last (fs # tr0)) (temp_of dest)"
    by auto
  let ?cur = "last (fs # tr0)"
  have l: "last (fs # tr) = last (?cur # cleanup w ?cur (temp_of dest))"
    unfolding tr by (rule last_with_cleanup)
  have tbe: "try_body w url tm (temp_of dest) dest fs = (Some e, tr0)"
    using tb e by simp
  have gone: "last (fs # tr) (temp_of dest) = None"
    if u: "unlink_err w (temp_of dest) = None" and nd: "fs (temp_of dest) \<noteq> Some Dir"
  proof -
    from try_body_failure_temp[OF tbe] nd have "?cur (temp_of dest) \<noteq> Some Dir" by auto
    from cleanup_temp[of w "temp_of dest" ?cur, OF u this] show ?thesis unfolding l .
  qed
  have f: "fst (try_body w url tm (temp_of dest) dest fs) = Some e"
    unfolding tbe by simp
  have "dest_of w url d fs = Some dest \<and>
            fst (try_body w url tm (temp_of dest) dest fs) = Some e \<and> info = str_exn e \<and>
            (unlink_err w (temp_of dest) = None \<and> fs (temp_of dest) \<noteq> Some Dir
               \<longrightarrow> last (fs # tr) (temp_of dest) = None)"
    using d f info gone by blast
  then show ?thesis by blast
qed

lemma outcome_aux:
  assumes "download_one w url d tm fs = Some (Inr ((u, ok, info), tr))"
  shows "u = url \<and>
         (\<exists>dest. dest_of w url d fs = Some dest \<and>
            (if ok then fst (try_body w url tm (temp_of dest) dest fs) = None \<and> info = str_path dest
             else \<exists>e. fst (try_body w url tm (temp_of dest) dest fs) = Some e \<and> info = str_exn e))"
proof -
  from download_one_Inr[OF assms(1)] obtain dest r tr0 where
    d: "dest_of w url d fs = Some dest" and a: "fs dest = None" and ne: "dest \<noteq> temp_of dest"
    and tb: "try_body w url tm (temp_of dest) dest fs = (r, tr0)"
    and good: "r = None \<longrightarrow> (u, ok, info) = (url, True, str_path dest) \<and> tr = tr0"
    and bad: "\<forall>e. r = Some e \<longrightarrow> (u, ok, info) = (url, False, str_exn e) \<and> tr = tr0 @ cleanup w (last (fs # tr0)) (temp_of dest)"
    by blast
  have f: "fst (try_body w url tm (temp_of dest) dest fs) = r"
    unfolding tb by simp
  show ?thesis
  proof (cases r)
    case None
    from good None have 1: "u = url" and 2: "ok" and 3: "info = str_path dest" by simp_all
    from f None have 4: "fst (try_body w url tm (temp_of dest) dest fs) = None" by simp
    have "dest_of w url d fs = Some dest \<and>
            (if ok then fst (try_body w url tm (temp_of dest) dest fs) = None \<and> info = str_path dest
             else \<exists>e. fst (try_body w url tm (temp_of dest) dest fs) = Some e \<and> info = str_exn e)"
      using d 2 3 4 by simp
    then have "\<exists>dest. dest_of w url d fs = Some dest \<and>
            (if ok then fst (try_body w url tm (temp_of dest) dest fs) = None \<and> info = str_path dest
             else \<exists>e. fst (try_body w url tm (temp_of dest) dest fs) = Some e \<and> info = str_exn e)"
      by (rule exI)
    with 1 show ?thesis by (rule conjI)
  next
    case (Some e)
    from bad Some have 1: "u = url" and 2: "\<not> ok" and 3: "info = str_exn e" by simp_all
    from f Some have 4: "fst (try_body w url tm (temp_of dest) dest fs) = Some e" by simp
    from 3 4 have "\<exists>e. fst (try_body w url tm (temp_of dest) dest fs) = Some e \<and> info = str_exn e"
      by blast
    with d 2 have "dest_of w url d fs = Some dest \<and>
            (if ok then fst (try_body w url tm (temp_of dest) dest fs) = None \<and> info = str_path dest
             else \<exists>e. fst (try_body w url tm (temp_of dest) dest fs) = Some e \<and> info = str_exn e)"
      by simp
    then have "\<exists>dest. dest_of w url d fs = Some dest \<and>
            (if ok then fst (try_body w url tm (temp_of dest) dest fs) = None \<and> info = str_path dest
             else \<exists>e. fst (try_body w url tm (temp_of dest) dest fs) = Some e \<and> info = str_exn e)"
      by (rule exI)
    with 1 show ?thesis by (rule conjI)
  qed
qed


lemma download_one_terminates:
  assumes "finite (dom fs)"
  shows "download_one w url d tm fs \<noteq> None"
proof (cases "filename_from_url (pyhash w) url")
  case (Inl e)
  then show ?thesis by (simp add: download_one_def)
next
  case (Inr nm)
  let ?p = "joinpath (parse_path d) nm"
  have wf: "wf_path ?p" by (rule wf_joinpath) (rule wf_parse_path)
  have "resolve_collision fs ?p \<noteq> None"
  proof (cases "name ?p = [] \<and> exists fs ?p")
    case True
    then show ?thesis
      by (subst resolve_collision_def, subst resolve_loop.simps) (simp add: with_name_def)
  next
    case False
    show ?thesis
    proof (cases "exists fs ?p")
      case True
      with False have "name ?p \<noteq> []" by simp
      from resolve_collision_numbered[OF assms wf this] show ?thesis by auto
    next
      case False
      then show ?thesis by (simp add: resolve_collision_def)
    qed
  qed
  then show ?thesis using Inr
    by (auto simp: download_one_def split: option.splits sum.splits prod.splits)
qed

subsection \<open>A malformed URL, and the loop of main\<close>

lemma urlparse_open_bracket: "urlparse ''http://['' = Inl (ValueError ''Invalid IPv6 URL'')"
  by code_simp

lemma filename_open_bracket:
  "filename_from_url h ''http://['' = Inl (ValueError ''Invalid IPv6 URL'')"
  by (simp only: filename_from_url_def urlparse_open_bracket sum.case)

lemma download_open_bracket:
  "download_one w ''http://['' d tm fs = Some (Inl (ValueError ''Invalid IPv6 URL''))"
  by (simp only: download_one_def filename_open_bracket sum.case)

lemma main_open_bracket:
  "main w aw tmo d [''http://[''] fs = Some (Some (ValueError ''Invalid IPv6 URL''), [], [])"
  by (simp add: main_def Let_def download_open_bracket)

lemma submit_all_length:
  "submit_all w d t urls fs = Some futs \<Longrightarrow> length futs = length urls"
proof (induction urls arbitrary: fs futs)
  case Nil
  then show ?case by simp
next
  case (Cons url urls)
  show ?case
  proof (cases "download_one w url d t fs")
    case None
    with Cons.prems show ?thesis by simp
  next
    case (Some r)
    show ?thesis
    proof (cases r)
      case (Inl e)
      with Some Cons.prems obtain futs' where "submit_all w d t urls fs = Some futs'" "futs = Inl e # futs'"
        by auto
      with Cons.IH show ?thesis by auto
    next
      case (Inr x)
      obtain out tr where x: "x = (out, tr)" by (cases x)
      with Inr Some Cons.prems obtain futs' where
        "submit_all w d t urls (last (fs # tr)) = Some futs'" "futs = Inr out # futs'"
        by auto
      with Cons.IH show ?thesis by auto
    qed
  qed
qed

lemma report_loop_length:
  "report_loop futs seen results = (crash, outs, res) \<Longrightarrow>
     length outs \<le> length seen + length futs \<and>
     (crash = None \<longrightarrow> length outs = length seen + length futs)"
proof (induction futs seen results rule: report_loop.induct)
  case (1 seen results)
  then show ?case by auto
next
  case (2 e futs seen results)
  then show ?case by auto
next
  case (3 url ok info futs seen results)
  then show ?case by (cases ok) auto
qed

lemma main_outcomes:
  assumes "main w aw tmo d urls fs = Some (crash, outs, res)"
  shows "length outs \<le> length urls \<and> (crash = None \<longrightarrow> length outs = length urls)"
proof (cases "urls = []")
  case True
  with assms show ?thesis by (simp add: main_def)
next
  case False
  with assms obtain futs where s: "submit_all w (str_path d) (5, tmo) urls fs = Some futs"
    and r: "report_loop futs [] [] = (crash, outs, res)"
    by (auto simp: main_def Let_def)
  from submit_all_length[OF s] report_loop_length[OF r] show ?thesis by simp
qed

subsection \<open>The retry loop\<close>






subsection \<open>URLs that urlparse accepts\<close>

lemma clean_url_set: "set (clean_url u) \<subseteq> set u"
  by (auto simp: clean_url_def dest: set_dropWhileD)

lemma split_scheme_set: "split_scheme u = (sch, r) \<Longrightarrow> set r \<subseteq> set u"
  by (auto simp: split_scheme_def Let_def split: if_splits dest: in_set_dropD)

lemma splitnetloc_set: "splitnetloc r = (n, rest) \<Longrightarrow> set n \<subseteq> set r"
  by (auto simp: splitnetloc_def Let_def dest: set_takeWhileD)

lemma urlparse_no_brackets:
  assumes "CHR ''['' \<notin> set url" "CHR '']'' \<notin> set url"
  shows "\<exists>p. urlparse url = Inr p"
proof -
  obtain sch r where ss: "split_scheme (clean_url url) = (sch, r)"
    by (cases "split_scheme (clean_url url)")
  obtain n rest where sn: "splitnetloc (drop 2 r) = (n, rest)"
    by (cases "splitnetloc (drop 2 r)")
  have "set n \<subseteq> set url"
    using splitnetloc_set[OF sn] split_scheme_set[OF ss] clean_url_set[of url]
    by (meson in_set_dropD subset_iff)
  with assms have "CHR ''['' \<notin> set n" "CHR '']'' \<notin> set n" by auto
  then have "\<exists>x. urlsplit url = Inr x"
    by (simp add: urlsplit_def ss sn)
  then show ?thesis
    by (auto simp: urlparse_def split: prod.splits)
qed

lemma result_outcome_Some:
  "result_outcome r = Some out \<Longrightarrow> r = Some (Inr (out, result_trace r))"
  by (auto simp: result_outcome_def result_trace_def split: option.splits sum.splits)

section \<open>The claims\<close>

text \<open>
  C6.  For a list of URLs that is not empty, the number of workers is
  \<open>max(1, min(W, number of requests))\<close>: at least one, and never more than there
  are requests, whatever integer \<open>W\<close> the command line gave.
\<close>

theorem worker_count:
  assumes "urls \<noteq> []"
  shows "workers w urls = max 1 (min w (int (length urls))) \<and>
         1 \<le> workers w urls \<and> workers w urls \<le> int (length urls)"
  using assms by (cases urls) (auto simp: workers_def)

theorem worker_count_witness:
  "[''u1'', ''u2'', ''u3''] \<noteq> [] \<and> workers 10 [''u1'', ''u2'', ''u3''] = 3 \<and>
   workers (- 2) [''u1'', ''u2'', ''u3''] = 1"
  using worker_count[of "[''u1'', ''u2'', ''u3'']" 10] worker_count[of "[''u1'', ''u2'', ''u3'']" "- 2"]
  by simp




text \<open>
  C8, as the claim states it, fails for the URL \<open>http://x/.\<close>: the name returned
  is a single dot, which is no file name; \<open>Path("pdfs") / "."\<close> is the directory
  \<open>pdfs\<close> itself, and the download is written beside the directory, to \<open>pdfs_1\<close>.
\<close>

theorem filename_dot_counterexample:
  "filename_from_url example_hash ''http://x/.'' = Inr ''.'' \<and>
   joinpath (parse_path ''pdfs'') ''.'' = parse_path ''pdfs'' \<and>
   result_outcome (download_one example_world ''http://x/.'' ''pdfs'' (5, 120) example_fs)
     = Some (''http://x/.'', True, ''pdfs_1'')"
  by code_simp

text \<open>The name can also be two dots, for the URL \<open>http://x/..\<close>.\<close>

lemma filename_two_dots: "filename_from_url example_hash ''http://x/..'' = Inr ''..''"
  by code_simp

text \<open>
  C8, amended.  For every URL that \<open>urlparse\<close> accepts, \<open>filename_from_url\<close>
  returns a name that is not empty and contains neither a slash nor a backslash; joined
  to a directory, such a name is one more component of the path, unless it is a
  single dot.  (The names \<open>.\<close> and \<open>..\<close> can be returned.)
\<close>

theorem filename_component:
  assumes "urlparse url = Inr p"
  shows "\<exists>nm. filename_from_url h url = Inr nm \<and> nm \<noteq> [] \<and>
              CHR ''/'' \<notin> set nm \<and> CHR 0x5C \<notin> set nm \<and>
              (nm \<noteq> ''.'' \<longrightarrow> joinpath d nm = Path (anchor d) (parts d @ [nm]))"
proof -
  from assms obtain nm where nm: "filename_from_url h url = Inr nm"
    by (simp add: filename_from_url_def Let_def)
  from filename_sanitized[OF nm]
  have s: "nm \<noteq> []" "CHR ''/'' \<notin> set nm" "CHR 0x5C \<notin> set nm" by simp_all
  have "nm \<noteq> ''.'' \<longrightarrow> joinpath d nm = Path (anchor d) (parts d @ [nm])"
    using joinpath_single[OF s(1,2)] by blast
  with nm s show ?thesis by blast
qed

theorem filename_component_witness:
  "urlparse ''http://x/a%2Fb%5Cc.pdf'' = Inr ''/a%2Fb%5Cc.pdf'' \<and>
   filename_from_url example_hash ''http://x/a%2Fb%5Cc.pdf'' = Inr ''a_b_c.pdf'' \<and>
   joinpath (parse_path ''pdfs'') ''a_b_c.pdf'' = Path [] [''pdfs'', ''a_b_c.pdf'']"
proof -
  have u: "urlparse ''http://x/a%2Fb%5Cc.pdf'' = Inr ''/a%2Fb%5Cc.pdf''" by code_simp
  have f: "filename_from_url example_hash ''http://x/a%2Fb%5Cc.pdf'' = Inr ''a_b_c.pdf''"
    by code_simp
  from filename_component[OF u, of example_hash "parse_path ''pdfs''"] f
  have "joinpath (parse_path ''pdfs'') ''a_b_c.pdf''
          = Path (anchor (parse_path ''pdfs'')) (parts (parse_path ''pdfs'') @ [''a_b_c.pdf''])"
    by auto
  moreover have "parse_path ''pdfs'' = Path [] [''pdfs'']" by code_simp
  ultimately show ?thesis using u f by simp
qed

text \<open>
  C9, as the claim states it, fails: the hash is the string hash of the running
  interpreter, which is salted anew for each run, so the same URL does not always get
  the same fallback name.  Under the hash function of one run the URL
  \<open>http://x/d/\<close> is named \<open>file_11.pdf\<close>, under that of another
  \<open>file_12.pdf\<close>.
\<close>

theorem hash_of_the_run_counterexample:
  "filename_from_url example_hash ''http://x/d/'' = Inr ''file_11.pdf'' \<and>
   filename_from_url other_hash ''http://x/d/'' = Inr ''file_12.pdf''"
  by code_simp

text \<open>
  C9, amended.  When the last segment of the URL's path is empty, the name is
  \<open>file_<n>.pdf\<close> with \<open>n\<close> the absolute value of the hash of the URL, where the
  hash is the one of the running interpreter.  Two such names, for any URLs and any hash
  functions, are equal exactly when the absolute values of the hashes are equal: within
  one run the same URL always gets the same name, and two URLs, or two runs, get the
  same name only when these values collide.
\<close>

theorem fallback_name:
  assumes "urlparse url = Inr p" and "basename p = []"
  shows "filename_from_url h url = Inr (''file_'' @ dec (nat \<bar>h url\<bar>) @ ''.pdf'') \<and>
         (\<forall>h' url' p'. urlparse url' = Inr p' \<and> basename p' = [] \<longrightarrow>
            (filename_from_url h url = filename_from_url h' url') = (\<bar>h url\<bar> = \<bar>h' url'\<bar>))"
proof -
  have 1: "filename_from_url h url = Inr (''file_'' @ dec (nat \<bar>h url\<bar>) @ ''.pdf'')"
    using assms by (rule filename_fallback)
  have "(filename_from_url h url = filename_from_url h' url') = (\<bar>h url\<bar> = \<bar>h' url'\<bar>)"
    if "urlparse url' = Inr p'" "basename p' = []" for h' url' p'
    unfolding 1 filename_fallback[OF that, of h'] using fallback_eq[of "h url" "h' url'"] by simp
  with 1 show ?thesis by blast
qed

theorem fallback_name_witness:
  "urlparse ''http://x/d/'' = Inr ''/d/'' \<and> basename ''/d/'' = [] \<and>
   filename_from_url example_hash ''http://x/d/'' = Inr ''file_11.pdf'' \<and>
   filename_from_url example_hash ''http://x/d/'' = filename_from_url example_hash ''http://y/e/''"
proof -
  have u: "urlparse ''http://x/d/'' = Inr ''/d/''" by code_simp
  have b: "basename ''/d/'' = []" by code_simp
  have u': "urlparse ''http://y/e/'' = Inr ''/e/''" by code_simp
  have b': "basename ''/e/'' = []" by code_simp
  have d: "dec 11 = ''11''" by code_simp
  from fallback_name[OF u b, of example_hash]
  have 1: "filename_from_url example_hash ''http://x/d/'' = Inr (''file_'' @ dec (nat \<bar>example_hash ''http://x/d/''\<bar>) @ ''.pdf'')"
    and 2: "(filename_from_url example_hash ''http://x/d/'' = filename_from_url example_hash ''http://y/e/'')
            = (\<bar>example_hash ''http://x/d/''\<bar> = \<bar>example_hash ''http://y/e/''\<bar>)"
    using u' b' by blast+
  from 1 d have "filename_from_url example_hash ''http://x/d/'' = Inr ''file_11.pdf''"
    by (simp add: example_hash_def)
  moreover from 2 have "filename_from_url example_hash ''http://x/d/'' = filename_from_url example_hash ''http://y/e/''"
    by (simp add: example_hash_def)
  ultimately show ?thesis using u b by simp
qed

text \<open>
  One call taken alone, in a directory that nothing else writes to.  In every call of
  \<open>download_one\<close> that returns, the destination of the call is absent in every
  state of the file system before the last one; in the last state it holds the whole
  body of the response when the call succeeded (the rename is the last step, made after
  the stream ended without an error), and it is absent when the call failed.
\<close>

theorem single_call_publish:
  assumes "download_one w url d tm fs = Some (Inr ((u, ok, info), tr))"
  shows "\<exists>dest. dest_of w url d fs = Some dest \<and>
           (\<forall>s \<in> set (butlast (fs # tr)). s dest = None) \<and>
           (if ok then complete w url tm (last (fs # tr)) dest
            else last (fs # tr) dest = None)"
  using assms by (rule atomic_publish_aux)

theorem single_call_publish_witness:
  "result_outcome (download_one example_world ''http://x/a.pdf'' ''pdfs'' (5, 120) example_fs)
     = Some (''http://x/a.pdf'', True, ''pdfs/a.pdf'') \<and>
   dest_of example_world ''http://x/a.pdf'' ''pdfs'' example_fs = Some (Path [] [''pdfs'', ''a.pdf'']) \<and>
   list_all (\<lambda>s. s (Path [] [''pdfs'', ''a.pdf'']) = None)
     (butlast (example_fs #
        result_trace (download_one example_world ''http://x/a.pdf'' ''pdfs'' (5, 120) example_fs))) \<and>
   complete example_world ''http://x/a.pdf'' (5, 120)
     (last (example_fs #
        result_trace (download_one example_world ''http://x/a.pdf'' ''pdfs'' (5, 120) example_fs)))
     (Path [] [''pdfs'', ''a.pdf''])"
proof -
  let ?r = "download_one example_world ''http://x/a.pdf'' ''pdfs'' (5, 120) example_fs"
  have o: "result_outcome ?r = Some (''http://x/a.pdf'', True, ''pdfs/a.pdf'')" by code_simp
  have h: "?r = Some (Inr ((''http://x/a.pdf'', True, ''pdfs/a.pdf''), result_trace ?r))"
    using o by (rule result_outcome_Some)
  from single_call_publish[OF h] obtain dest where
    d: "dest_of example_world ''http://x/a.pdf'' ''pdfs'' example_fs = Some dest"
    and b: "\<forall>s \<in> set (butlast (example_fs # result_trace ?r)). s dest = None"
    and c: "complete example_world ''http://x/a.pdf'' (5, 120) (last (example_fs # result_trace ?r)) dest"
    by auto
  have d2: "dest_of example_world ''http://x/a.pdf'' ''pdfs'' example_fs = Some (Path [] [''pdfs'', ''a.pdf''])"
    by code_simp
  from d d2 have e: "dest = Path [] [''pdfs'', ''a.pdf'']" by simp
  from b have "list_all (\<lambda>s. s dest = None) (butlast (example_fs # result_trace ?r))"
    unfolding list_all_iff .
  with c o d2 show ?thesis unfolding e by blast
qed

text \<open>
  Two calls.  The temporary path of a call is never checked: \<open>resolve_collision\<close>
  looks at the destination only.  So the temporary path of one call can be the
  published file of another, and two calls that start from the same state of the
  directory get the same destination and the same temporary path.
\<close>

lemma same_destination_from_same_state:
  "dest_of example_world ''http://x/doc?id=1'' ''pdfs'' example_fs = Some (Path [] [''pdfs'', ''doc'']) \<and>
   dest_of example_world ''http://x/doc?id=2'' ''pdfs'' example_fs = Some (Path [] [''pdfs'', ''doc''])"
  by code_simp

lemma published_file_renamed_away:
  "result_outcome (download_one example_world ''http://x/a.pdf.part'' ''pdfs'' (5, 120) example_fs)
     = Some (''http://x/a.pdf.part'', True, ''pdfs/a.pdf.part'') \<and>
   result_outcome
     (download_one example_world ''http://x/a.pdf'' ''pdfs'' (5, 120)
        (fs_after example_fs
           (download_one example_world ''http://x/a.pdf.part'' ''pdfs'' (5, 120) example_fs)))
     = Some (''http://x/a.pdf'', True, ''pdfs/a.pdf'') \<and>
   seen_at (Path [] [''pdfs'', ''a.pdf.part''])
     (download_one example_world ''http://x/a.pdf'' ''pdfs'' (5, 120)
        (fs_after example_fs
           (download_one example_world ''http://x/a.pdf.part'' ''pdfs'' (5, 120) example_fs)))
     = [Some (File []), Some (File ''%PDF''), Some (File ''%PDF-1.4''), None]"
  by code_simp

text \<open>
  C1.  The code does not do what the claim says.  The download of
  \<open>http://x/broken.pdf.part\<close> succeeds and publishes \<open>pdfs/broken.pdf.part\<close>
  with its eight bytes.  The download of \<open>http://x/broken.pdf\<close> then takes that
  path as its temporary file: the published file is seen empty, then with the two bytes
  of another body, and then it is gone, deleted by the cleanup of the failed call.
\<close>

theorem published_file_overwritten:
  "result_outcome (download_one example_world ''http://x/broken.pdf.part'' ''pdfs'' (5, 120) example_fs)
     = Some (''http://x/broken.pdf.part'', True, ''pdfs/broken.pdf.part'') \<and>
   fs_after example_fs
     (download_one example_world ''http://x/broken.pdf.part'' ''pdfs'' (5, 120) example_fs)
     (Path [] [''pdfs'', ''broken.pdf.part'']) = Some (File ''%PDF-1.4'') \<and>
   seen_at (Path [] [''pdfs'', ''broken.pdf.part''])
     (download_one example_world ''http://x/broken.pdf'' ''pdfs'' (5, 120)
        (fs_after example_fs
           (download_one example_world ''http://x/broken.pdf.part'' ''pdfs'' (5, 120) example_fs)))
     = [Some (File []), Some (File ''ab''), None] \<and>
   result_outcome
     (download_one example_world ''http://x/broken.pdf'' ''pdfs'' (5, 120)
        (fs_after example_fs
           (download_one example_world ''http://x/broken.pdf.part'' ''pdfs'' (5, 120) example_fs)))
     = Some (''http://x/broken.pdf'', False, ''Connection broken'')"
  by code_simp

text \<open>
  C4, as the claim states it, fails when the deletion itself fails: on a disk that
  refuses \<open>unlink\<close>, the download of a body that breaks after two bytes ends as a
  failure with the message of the broken connection, and the temporary file stays,
  with the two bytes in it.
\<close>

theorem part_file_left_counterexample:
  "result_outcome (download_one locked_world ''http://x/broken.pdf'' ''pdfs'' (5, 120) example_fs)
     = Some (''http://x/broken.pdf'', False, ''Connection broken'') \<and>
   last (example_fs #
           result_trace (download_one locked_world ''http://x/broken.pdf'' ''pdfs'' (5, 120) example_fs))
     (Path [] [''pdfs'', ''broken.pdf.part'']) = Some (File ''ab'')"
  by code_simp

text \<open>
  C4, amended.  When \<open>download_one\<close> returns a failure, its detail is the message of
  the exception that left the body of \<open>try\<close>, whatever happens to the deletion; and
  the temporary file is absent afterwards whenever the deletion does not fail, that is,
  \<open>unlink\<close> raises nothing and the temporary path is no directory.
\<close>

theorem failure_cleanup:
  assumes "download_one w url d tm fs = Some (Inr ((u, ok, info), tr))" and "\<not> ok"
  shows "\<exists>dest e. dest_of w url d fs = Some dest \<and>
            fst (try_body w url tm (temp_of dest) dest fs) = Some e \<and> info = str_exn e \<and>
            (unlink_err w (temp_of dest) = None \<and> fs (temp_of dest) \<noteq> Some Dir
               \<longrightarrow> last (fs # tr) (temp_of dest) = None)"
  using assms by (rule failure_detail_aux)

theorem failure_cleanup_witness:
  "result_outcome (download_one example_world ''http://x/broken.pdf'' ''pdfs'' (5, 120) example_fs)
     = Some (''http://x/broken.pdf'', False, ''Connection broken'') \<and>
   unlink_err example_world (Path [] [''pdfs'', ''broken.pdf.part'']) = None \<and>
   example_fs (Path [] [''pdfs'', ''broken.pdf.part'']) \<noteq> Some Dir \<and>
   last (example_fs #
           result_trace (download_one example_world ''http://x/broken.pdf'' ''pdfs'' (5, 120) example_fs))
     (Path [] [''pdfs'', ''broken.pdf.part'']) = None"
proof -
  let ?r = "download_one example_world ''http://x/broken.pdf'' ''pdfs'' (5, 120) example_fs"
  let ?t = "Path [] [''pdfs'', ''broken.pdf.part'']"
  have o: "result_outcome ?r = Some (''http://x/broken.pdf'', False, ''Connection broken'')"
    by code_simp
  have h: "?r = Some (Inr ((''http://x/broken.pdf'', False, ''Connection broken''), result_trace ?r))"
    using o by (rule result_outcome_Some)
  from failure_cleanup[OF h] obtain dest where
    d: "dest_of example_world ''http://x/broken.pdf'' ''pdfs'' example_fs = Some dest"
    and g: "unlink_err example_world (temp_of dest) = None \<and> example_fs (temp_of dest) \<noteq> Some Dir
               \<longrightarrow> last (example_fs # result_trace ?r) (temp_of dest) = None"
    by auto
  have d2: "dest_of example_world ''http://x/broken.pdf'' ''pdfs'' example_fs
              = Some (Path [] [''pdfs'', ''broken.pdf''])"
    by code_simp
  have t: "temp_of (Path [] [''pdfs'', ''broken.pdf'']) = ?t" by code_simp
  from d d2 t have e: "temp_of dest = ?t" by simp
  have u: "unlink_err example_world ?t = None" by (simp add: example_world_def no_fault_def)
  have n: "example_fs ?t \<noteq> Some Dir" by (simp add: example_fs_def)
  from g u n have "last (example_fs # result_trace ?r) ?t = None" unfolding e by blast
  with o u n show ?thesis by blast
qed

text \<open>
  C10.  The triple that \<open>download_one\<close> returns carries the URL it was given; on
  success, when the body of \<open>try\<close> ended without an exception, the detail is the
  destination path as a string; on failure it is the message of the exception that left
  the body of \<open>try\<close>.
\<close>

theorem outcome_triple:
  assumes "download_one w url d tm fs = Some (Inr ((u, ok, info), tr))"
  shows "u = url \<and>
         (\<exists>dest. dest_of w url d fs = Some dest \<and>
            (if ok then fst (try_body w url tm (temp_of dest) dest fs) = None \<and> info = str_path dest
             else \<exists>e. fst (try_body w url tm (temp_of dest) dest fs) = Some e \<and> info = str_exn e))"
  using assms by (rule outcome_aux)

theorem outcome_triple_witness:
  "result_outcome (download_one example_world ''http://x/a.pdf'' ''pdfs'' (5, 120) crowded_fs)
     = Some (''http://x/a.pdf'', True, ''pdfs/a_2.pdf'') \<and>
   dest_of example_world ''http://x/a.pdf'' ''pdfs'' crowded_fs = Some (Path [] [''pdfs'', ''a_2.pdf'']) \<and>
   str_path (Path [] [''pdfs'', ''a_2.pdf'']) = ''pdfs/a_2.pdf'' \<and>
   result_outcome (download_one example_world ''http://x/404'' ''pdfs'' (5, 120) example_fs)
     = Some (''http://x/404'', False, ''404 Client Error: Not Found for url: http://x/404'') \<and>
   fst (try_body example_world ''http://x/404'' (5, 120) (Path [] [''pdfs'', ''404.part''])
          (Path [] [''pdfs'', ''404'']) example_fs)
     = Some (HTTPError ''404 Client Error: Not Found for url: http://x/404'')"
proof -
  let ?r = "download_one example_world ''http://x/a.pdf'' ''pdfs'' (5, 120) crowded_fs"
  let ?r' = "download_one example_world ''http://x/404'' ''pdfs'' (5, 120) example_fs"
  have o: "result_outcome ?r = Some (''http://x/a.pdf'', True, ''pdfs/a_2.pdf'')" by code_simp
  have h: "?r = Some (Inr ((''http://x/a.pdf'', True, ''pdfs/a_2.pdf''), result_trace ?r))"
    using o by (rule result_outcome_Some)
  from outcome_triple[OF h] obtain dest where
    d: "dest_of example_world ''http://x/a.pdf'' ''pdfs'' crowded_fs = Some dest"
    and i: "''pdfs/a_2.pdf'' = str_path dest"
    by auto
  have d2: "dest_of example_world ''http://x/a.pdf'' ''pdfs'' crowded_fs = Some (Path [] [''pdfs'', ''a_2.pdf''])"
    by code_simp
  from d d2 i have s: "str_path (Path [] [''pdfs'', ''a_2.pdf'']) = ''pdfs/a_2.pdf''" by simp
  have o': "result_outcome ?r' = Some (''http://x/404'', False, ''404 Client Error: Not Found for url: http://x/404'')"
    by code_simp
  have h': "?r' = Some (Inr ((''http://x/404'', False, ''404 Client Error: Not Found for url: http://x/404''), result_trace ?r'))"
    using o' by (rule result_outcome_Some)
  from outcome_triple[OF h'] obtain dest' e where
    d': "dest_of example_world ''http://x/404'' ''pdfs'' example_fs = Some dest'"
    and f: "fst (try_body example_world ''http://x/404'' (5, 120) (temp_of dest') dest' example_fs) = Some e"
    by auto
  have f2: "fst (try_body example_world ''http://x/404'' (5, 120) (Path [] [''pdfs'', ''404.part''])
          (Path [] [''pdfs'', ''404'']) example_fs)
     = Some (HTTPError ''404 Client Error: Not Found for url: http://x/404'')"
    by code_simp
  from o d2 s o' f2 show ?thesis by blast
qed




text \<open>
  C2.  The code does not do what the claim says: the URL \<open>http://[\<close> makes
  \<open>urlparse\<close> raise \<open>ValueError\<close> in \<open>filename_from_url\<close>, before the
  \<open>try\<close> of \<open>download_one\<close>; \<open>fut.result()\<close> raises it again in \<open>main\<close>, and
  the loop ends.  Of three requests only the first has an outcome.
\<close>

theorem batch_loses_outcomes:
  "main example_world 10 120 (parse_path ''pdfs'')
     [''http://x/a.pdf'', ''http://['', ''http://x/b.pdf''] example_fs
   = Some (Some (ValueError ''Invalid IPv6 URL''), [(''http://x/a.pdf'', True, ''pdfs/a.pdf'')], [])"
  by code_simp

text \<open>
  C3.  The code does not do what the claim says: for the URL \<open>http://[\<close>, in any
  world, any directory and any file system, \<open>download_one\<close> raises \<open>ValueError\<close>
  and returns no triple.
\<close>

theorem download_one_raises:
  "download_one w ''http://['' d tm fs = Some (Inl (ValueError ''Invalid IPv6 URL''))"
  by (rule download_open_bracket)

end
